theory Spec2Isabelle
  imports Main "HOL-Library.Word"
begin

unbundle bit_operations_syntax

section \<open>Data model\<close>

text \<open>
  The driver of \<^verbatim>\<open>python_example/blinkytape.py\<close> talks to the device through a PySerial
  object. Python 2 strings are byte strings: a wire payload is a list of bytes.
\<close>

type_synonym byte = "8 word"

datatype error = RuntimeError | ValueError | IndexError

text \<open>
  A call either returns a value, raises, or never returns because a blocking read (the port
  is opened without a timeout) waits for bytes that the device does not send. Each outcome
  comes with the state of the object at that moment.
\<close>

datatype 'a outcome = Return 'a | Raise error | Blocked

text \<open>
  The serial port: the calls made on it so far, in order, and the bytes the device has
  delivered that no read has consumed yet. The fixed delay of \<^verbatim>\<open>time.sleep\<close> changes
  neither and is left out.
\<close>

datatype event = Write "byte list" | Flush | Read nat | FlushInput

record port =
  calls :: "event list"
  incoming :: "byte list"

record blinkytape =
  ledCount :: int
  buffered :: bool
  buf :: "byte list"
  serial :: port

text \<open>The value \<^verbatim>\<open>readFileData\<close> returns: a bare boolean or a (status, data) pair.\<close>

datatype pyvalue = PyBool bool | PyPair bool "byte list"

section \<open>The serial port\<close>

definition serial_write :: "byte list \<Rightarrow> port \<Rightarrow> port" where
  "serial_write data p = p\<lparr>calls := calls p @ [Write data]\<rparr>"

definition serial_flush :: "port \<Rightarrow> port" where
  "serial_flush p = p\<lparr>calls := calls p @ [Flush]\<rparr>"

definition serial_flushInput :: "port \<Rightarrow> port" where
  "serial_flushInput p = p\<lparr>calls := calls p @ [FlushInput], incoming := []\<rparr>"

text \<open>\<^verbatim>\<open>read(n)\<close> blocks until \<open>n\<close> bytes have arrived: \<open>None\<close> when they never do.\<close>

definition serial_read :: "nat \<Rightarrow> port \<Rightarrow> byte list option \<times> port" where
  "serial_read n p =
     (if n \<le> length (incoming p)
      then (Some (take n (incoming p)),
            p\<lparr>calls := calls p @ [Read n], incoming := drop n (incoming p)\<rparr>)
      else (None, p\<lparr>calls := calls p @ [Read n]\<rparr>))"

text \<open>What went out on the wire: the chunks written, and their concatenation.\<close>

fun writes :: "event list \<Rightarrow> byte list list" where
  "writes [] = []"
| "writes (Write data # evs) = data # writes evs"
| "writes (_ # evs) = writes evs"

definition wire :: "blinkytape \<Rightarrow> byte list" where
  "wire self = concat (writes (calls (serial self)))"

section \<open>Python primitives\<close>

text \<open>\<^verbatim>\<open>chr(i)\<close> raises ValueError outside \<open>range(256)\<close>.\<close>

definition chr_py :: "int \<Rightarrow> error + byte" where
  "chr_py i = (if 0 \<le> i \<and> i < 256 then Inr (word_of_int i) else Inl ValueError)"

text \<open>\<^verbatim>\<open>chr(a) + chr(b) + ...\<close>, evaluated from left to right.\<close>

fun chr_concat :: "int list \<Rightarrow> error + byte list" where
  "chr_concat [] = Inr []"
| "chr_concat (i # js) =
     (case chr_py i of
        Inl e \<Rightarrow> Inl e
      | Inr c \<Rightarrow> (case chr_concat js of Inl e \<Rightarrow> Inl e | Inr cs \<Rightarrow> Inr (c # cs)))"

text \<open>\<^verbatim>\<open>s[i]\<close> for a constant index \<open>i \<ge> 0\<close>: IndexError past the end.\<close>

definition getitem :: "byte list \<Rightarrow> nat \<Rightarrow> error + byte" where
  "getitem s i = (if i < length s then Inr (s ! i) else Inl IndexError)"

section \<open>The driver\<close>

text \<open>The constructor, with the port already open and nothing received.\<close>

definition BlinkyTape :: "int \<Rightarrow> bool \<Rightarrow> blinkytape" where
  "BlinkyTape n b =
     \<lparr>ledCount = n, buffered = b, buf = [], serial = \<lparr>calls = [], incoming = []\<rparr>\<rparr>"

subsection \<open>Pixel stream\<close>

text \<open>Lines 85 to 98 of \<^verbatim>\<open>sendPixel\<close>: the clamps and the three \<^verbatim>\<open>chr\<close> calls.\<close>

definition pixel_data :: "int \<Rightarrow> int \<Rightarrow> int \<Rightarrow> error + byte list" where
  "pixel_data r g b =
     (let r = (if r < 0 then 0 else r);
          g = (if g < 0 then 0 else g);
          b = (if b < 0 then 0 else b);
          r = (if r \<ge> 255 then 254 else r);
          g = (if g \<ge> 255 then 254 else g);
          b = (if b \<ge> 255 then 254 else b)
      in chr_concat [r, g, b])"

definition sendPixel :: "int \<Rightarrow> int \<Rightarrow> int \<Rightarrow> blinkytape \<Rightarrow> unit outcome \<times> blinkytape" where
  "sendPixel r g b self =
     (case pixel_data r g b of
        Inl e \<Rightarrow> (Raise e, self)
      | Inr data \<Rightarrow>
          if int (length data) * 3 < ledCount self then
            (if buffered self then (Return (), self\<lparr>buf := buf self @ data\<rparr>)
             else (Return (),
                   self\<lparr>serial := serial_flush (serial_write data (serial self))\<rparr>))
          else (Raise RuntimeError, self))"

text \<open>The method \<^verbatim>\<open>show\<close>; its name is a keyword of the proof language.\<close>

definition show_frame :: "blinkytape \<Rightarrow> unit outcome \<times> blinkytape" where
  "show_frame self =
     (let control = [0, 0, 255];
          self = (if buffered self
                  then self\<lparr>serial := serial_write (buf self @ control) (serial self),
                            buf := []\<rparr>
                  else self\<lparr>serial := serial_write control (serial self)\<rparr>)
      in (Return (), self\<lparr>serial := serial_flushInput (serial_flush (serial self))\<rparr>))"

text \<open>
  The definition of \<^verbatim>\<open>send_list\<close> in effect is the second one (lines 65 to 76), which
  replaces the first. Its loop, with \<open>data\<close> accumulated:
\<close>

fun send_list_data :: "(int \<times> int \<times> int) list \<Rightarrow> byte list \<Rightarrow> error + byte list" where
  "send_list_data [] data = Inr data"
| "send_list_data ((r, g, b) # colors) data =
     (let r = (if r \<ge> 255 then 254 else r);
          g = (if g \<ge> 255 then 254 else g);
          b = (if b \<ge> 255 then 254 else b)
      in case chr_concat [r, g, b] of
           Inl e \<Rightarrow> Inl e
         | Inr d \<Rightarrow> send_list_data colors (data @ d))"

definition send_list :: "(int \<times> int \<times> int) list \<Rightarrow> blinkytape \<Rightarrow> unit outcome \<times> blinkytape" where
  "send_list colors self =
     (case send_list_data colors [] of
        Inl e \<Rightarrow> (Raise e, self)
      | Inr data \<Rightarrow> show_frame (self\<lparr>serial := serial_write data (serial self)\<rparr>))"

text \<open>
  A caller's sequence of \<^verbatim>\<open>sendPixel\<close> calls, one for each colour (the loop of
  \<^verbatim>\<open>displayColor\<close> and of the example at the end of the file), and the same followed
  by \<^verbatim>\<open>show\<close>. An exception ends the sequence.
\<close>

fun sendPixels :: "(int \<times> int \<times> int) list \<Rightarrow> blinkytape \<Rightarrow> unit outcome \<times> blinkytape" where
  "sendPixels [] self = (Return (), self)"
| "sendPixels ((r, g, b) # colors) self =
     (case sendPixel r g b self of
        (Return _, self') \<Rightarrow> sendPixels colors self'
      | (Raise e, self') \<Rightarrow> (Raise e, self')
      | (Blocked, self') \<Rightarrow> (Blocked, self'))"

definition sendPixels_show :: "(int \<times> int \<times> int) list \<Rightarrow> blinkytape \<Rightarrow> unit outcome \<times> blinkytape" where
  "sendPixels_show colors self =
     (case sendPixels colors self of
        (Return _, self') \<Rightarrow> show_frame self'
      | (Raise e, self') \<Rightarrow> (Raise e, self')
      | (Blocked, self') \<Rightarrow> (Blocked, self'))"

definition displayColor :: "int \<Rightarrow> int \<Rightarrow> int \<Rightarrow> blinkytape \<Rightarrow> unit outcome \<times> blinkytape" where
  "displayColor r g b self =
     sendPixels_show (map (\<lambda>i. (r, g, b)) [0..<nat (ledCount self)]) self"

subsection \<open>Commands\<close>

definition controlEscapeSequence :: "byte list" where
  "controlEscapeSequence = fold (\<lambda>i s. s @ [255]) [0..<10] []"

definition sendCommand :: "byte list \<Rightarrow> blinkytape \<Rightarrow> (bool \<times> byte list) outcome \<times> blinkytape" where
  "sendCommand command self =
     (let p = serial_write controlEscapeSequence (serial self);
          p = serial_write command p;
          p = serial_flush p
      in case serial_read 2 p of
           (None, p) \<Rightarrow> (Blocked, self\<lparr>serial := p\<rparr>)
         | (Some ret, p) \<Rightarrow>
             (case getitem ret 0 of
                Inl e \<Rightarrow> (Raise e, self\<lparr>serial := p\<rparr>)
              | Inr c0 \<Rightarrow>
                  (let status = (c0 = 0x50) in
                   case getitem ret 1 of
                     Inl e \<Rightarrow> (Raise e, self\<lparr>serial := p\<rparr>)
                   | Inr c1 \<Rightarrow>
                       (case serial_read (unat c1 + 1) p of
                          (None, p) \<Rightarrow> (Blocked, self\<lparr>serial := p\<rparr>)
                        | (Some returnData, p) \<Rightarrow>
                            (Return (status, returnData),
                             self\<lparr>serial := serial_flushInput p\<rparr>)))))"

definition reloadAnimations :: "blinkytape \<Rightarrow> unit outcome \<times> blinkytape" where
  "reloadAnimations self =
     (case chr_concat [0x02] of
        Inl e \<Rightarrow> (Raise e, self)
      | Inr command \<Rightarrow>
          (case sendCommand command self of
             (Return _, self') \<Rightarrow> (Return (), self')
           | (Raise e, self') \<Rightarrow> (Raise e, self')
           | (Blocked, self') \<Rightarrow> (Blocked, self')))"

text \<open>
  The four statements \<^verbatim>\<open>space += ord(returnData[i]) << k\<close> of \<^verbatim>\<open>getFreeSpace\<close>,
  for the pairs \<open>(i, k)\<close> in order.
\<close>

fun add_shifted :: "byte list \<Rightarrow> (nat \<times> nat) list \<Rightarrow> int \<Rightarrow> error + int" where
  "add_shifted returnData [] space = Inr space"
| "add_shifted returnData ((i, k) # rest) space =
     (case getitem returnData i of
        Inl e \<Rightarrow> Inl e
      | Inr c \<Rightarrow> add_shifted returnData rest (space + push_bit k (uint c)))"

definition getFreeSpace :: "blinkytape \<Rightarrow> int outcome \<times> blinkytape" where
  "getFreeSpace self =
     (case chr_concat [0x10] of
        Inl e \<Rightarrow> (Raise e, self)
      | Inr command \<Rightarrow>
          (case sendCommand command self of
             (Return (status, returnData), self') \<Rightarrow>
               (if status then
                  (case add_shifted returnData [(0, 24), (1, 16), (2, 8), (3, 0)] 0 of
                     Inl e \<Rightarrow> (Raise e, self')
                   | Inr space \<Rightarrow> (Return space, self'))
                else (Return 0, self'))
           | (Raise e, self') \<Rightarrow> (Raise e, self')
           | (Blocked, self') \<Rightarrow> (Blocked, self')))"

definition writeFilePage :: "int \<Rightarrow> int \<Rightarrow> byte list \<Rightarrow> blinkytape \<Rightarrow> bool outcome \<times> blinkytape" where
  "writeFilePage sector offset data self =
     (if length data \<noteq> 256 then (Return False, self)
      else
        case chr_concat [0x19,
               drop_bit 24 sector AND 0xFF, drop_bit 16 sector AND 0xFF,
               drop_bit 8 sector AND 0xFF, sector AND 0xFF,
               drop_bit 24 offset AND 0xFF, drop_bit 16 offset AND 0xFF,
               drop_bit 8 offset AND 0xFF, offset AND 0xFF] of
          Inl e \<Rightarrow> (Raise e, self)
        | Inr command \<Rightarrow>
            (case sendCommand (command @ data) self of
               (Return (status, returnData), self') \<Rightarrow> (Return status, self')
             | (Raise e, self') \<Rightarrow> (Raise e, self')
             | (Blocked, self') \<Rightarrow> (Blocked, self')))"

text \<open>
  In \<^verbatim>\<open>length - 1 & 0xFF\<close> the subtraction binds tighter than the mask.
\<close>

definition readFileData :: "int \<Rightarrow> int \<Rightarrow> int \<Rightarrow> blinkytape \<Rightarrow> pyvalue outcome \<times> blinkytape" where
  "readFileData sector offset len self =
     (if len > 256 then (Return (PyBool False), self)
      else
        case chr_concat [0x1A,
               drop_bit 24 sector AND 0xFF, drop_bit 16 sector AND 0xFF,
               drop_bit 8 sector AND 0xFF, sector AND 0xFF,
               drop_bit 24 offset AND 0xFF, drop_bit 16 offset AND 0xFF,
               drop_bit 8 offset AND 0xFF, offset AND 0xFF,
               (len - 1) AND 0xFF] of
          Inl e \<Rightarrow> (Raise e, self)
        | Inr command \<Rightarrow>
            (case sendCommand command self of
               (Return (status, returnData), self') \<Rightarrow> (Return (PyPair status returnData), self')
             | (Raise e, self') \<Rightarrow> (Raise e, self')
             | (Blocked, self') \<Rightarrow> (Blocked, self')))"

subsection \<open>The encodings in the words of the specification\<close>

text \<open>
  The pixel encoder: each channel clamped to [0, 254], values of 255 or more to 254 and
  negative values to 0.
\<close>

definition clamp_channel :: "int \<Rightarrow> int" where
  "clamp_channel x = (if 255 \<le> x then 254 else if x < 0 then 0 else x)"

definition encode :: "int \<times> int \<times> int \<Rightarrow> byte list" where
  "encode c = (case c of (r, g, b) \<Rightarrow>
     [word_of_int (clamp_channel r), word_of_int (clamp_channel g), word_of_int (clamp_channel b)])"

text \<open>A 32-bit field, most significant byte first.\<close>

definition be_u32 :: "int \<Rightarrow> byte list" where
  "be_u32 x = map (\<lambda>k. word_of_int (x div 256 ^ k mod 256)) [3, 2, 1, 0]"

section \<open>Verification\<close>

lemma and_255_mod: "(x::int) AND 0xFF = x mod 256"
proof -
  have "x AND mask 8 = take_bit 8 x" by (simp add: take_bit_eq_mask)
  then show ?thesis by (simp add: take_bit_eq_mod mask_eq_exp_minus_1)
qed

lemma chr_py_masked: "chr_py (x AND 0xFF) = Inr (word_of_int (x mod 256))"
  by (simp add: chr_py_def and_255_mod)

lemma controlEscapeSequence_eq: "controlEscapeSequence = replicate 10 255"
proof -
  have "controlEscapeSequence = [255, 255, 255, 255, 255, 255, 255, 255, 255, 255]"
    by (simp add: controlEscapeSequence_def upt_rec)
  moreover have "replicate 10 (255::byte) = [255, 255, 255, 255, 255, 255, 255, 255, 255, 255]"
    by (simp add: numeral_eq_Suc)
  ultimately show ?thesis by simp
qed

lemma writes_append: "writes (xs @ ys) = writes xs @ writes ys"
  by (induction xs rule: writes.induct) simp_all

lemma pixel_data_encode: "pixel_data r g b = Inr (encode (r, g, b))"
  by (simp add: pixel_data_def encode_def clamp_channel_def chr_py_def Let_def)

lemma sendCommand_writes:
  "writes (calls (serial (snd (sendCommand command self)))) =
     writes (calls (serial self)) @ [replicate 10 255, command]"
  by (simp add: sendCommand_def serial_write_def serial_flush_def serial_read_def
      serial_flushInput_def getitem_def writes_append controlEscapeSequence_eq Let_def
      split: prod.splits option.splits sum.splits if_splits)

lemma length_encode: "length (encode c) = 3"
  by (cases c) (simp add: encode_def)

lemma sendPixel_eq:
  "sendPixel r g b self =
     (if 9 < ledCount self then
        (if buffered self then (Return (), self\<lparr>buf := buf self @ encode (r, g, b)\<rparr>)
         else (Return (),
               self\<lparr>serial := serial_flush (serial_write (encode (r, g, b)) (serial self))\<rparr>))
      else (Raise RuntimeError, self))"
  by (simp add: sendPixel_def pixel_data_encode length_encode)

lemma sendPixels_buffered:
  "9 < ledCount self \<Longrightarrow> buffered self \<Longrightarrow>
   sendPixels colors self = (Return (), self\<lparr>buf := buf self @ concat (map encode colors)\<rparr>)"
proof (induction colors arbitrary: self)
  case Nil
  then show ?case by simp
next
  case (Cons c colors)
  obtain r g b where c: "c = (r, g, b)" by (cases c)
  let ?s = "self\<lparr>buf := buf self @ encode (r, g, b)\<rparr>"
  have step: "sendPixel r g b self = (Return (), ?s)"
    using Cons.prems by (simp add: sendPixel_eq)
  have "sendPixels colors ?s = (Return (), ?s\<lparr>buf := buf ?s @ concat (map encode colors)\<rparr>)"
    using Cons.prems by (intro Cons.IH) simp_all
  then show ?case by (simp add: c step)
qed

text \<open>The calls that the immediate mode makes for a list of pixels.\<close>

lemma sendPixels_immediate:
  "9 < ledCount self \<Longrightarrow> \<not> buffered self \<Longrightarrow>
   sendPixels colors self =
     (Return (), self\<lparr>serial := (serial self)\<lparr>calls := calls (serial self) @
         concat (map (\<lambda>c. [Write (encode c), Flush]) colors)\<rparr>\<rparr>)"
proof (induction colors arbitrary: self)
  case Nil
  then show ?case by simp
next
  case (Cons c colors)
  obtain r g b where c: "c = (r, g, b)" by (cases c)
  let ?s = "self\<lparr>serial := serial_flush (serial_write (encode (r, g, b)) (serial self))\<rparr>"
  have step: "sendPixel r g b self = (Return (), ?s)"
    using Cons.prems by (simp add: sendPixel_eq)
  have "sendPixels colors ?s =
     (Return (), ?s\<lparr>serial := (serial ?s)\<lparr>calls := calls (serial ?s) @
         concat (map (\<lambda>c. [Write (encode c), Flush]) colors)\<rparr>\<rparr>)"
    using Cons.prems by (intro Cons.IH) simp_all
  then show ?case by (simp add: c step serial_flush_def serial_write_def)
qed

lemma sendPixels_reject:
  "\<not> 9 < ledCount self \<Longrightarrow> colors \<noteq> [] \<Longrightarrow> sendPixels colors self = (Raise RuntimeError, self)"
  by (cases colors) (auto simp: sendPixel_eq)

lemma writes_pixel_calls:
  "writes (concat (map (\<lambda>c. [Write (encode c), Flush]) colors)) = map encode colors"
  by (induction colors) simp_all

lemma show_frame_buffered:
  "buffered self \<Longrightarrow>
   show_frame self = (Return (), self\<lparr>buf := [], serial := \<lparr>calls = calls (serial self) @
      [Write (buf self @ [0, 0, 255]), Flush, FlushInput], incoming = []\<rparr>\<rparr>)"
  by (simp add: show_frame_def serial_write_def serial_flush_def serial_flushInput_def)

lemma show_frame_immediate:
  "\<not> buffered self \<Longrightarrow>
   show_frame self = (Return (), self\<lparr>serial := \<lparr>calls = calls (serial self) @
      [Write [0, 0, 255], Flush, FlushInput], incoming = []\<rparr>\<rparr>)"
  by (simp add: show_frame_def serial_write_def serial_flush_def serial_flushInput_def)

lemma frame_buffered:
  assumes "9 < n \<or> colors = []"
  shows "fst (sendPixels_show colors (BlinkyTape n True)) = Return ()"
    and "writes (calls (serial (snd (sendPixels_show colors (BlinkyTape n True))))) =
           [concat (map encode colors) @ [0, 0, 255]]"
proof -
  have sp: "sendPixels colors (BlinkyTape n True) =
      (Return (), (BlinkyTape n True)\<lparr>buf := concat (map encode colors)\<rparr>)"
  proof (cases "colors = []")
    case True
    then show ?thesis by (simp add: BlinkyTape_def)
  next
    case False
    with assms have "9 < ledCount (BlinkyTape n True)" by (simp add: BlinkyTape_def)
    from sendPixels_buffered [OF this, of colors] show ?thesis by (simp add: BlinkyTape_def)
  qed
  show "fst (sendPixels_show colors (BlinkyTape n True)) = Return ()"
    unfolding sendPixels_show_def sp by (simp add: show_frame_buffered BlinkyTape_def)
  show "writes (calls (serial (snd (sendPixels_show colors (BlinkyTape n True))))) =
           [concat (map encode colors) @ [0, 0, 255]]"
    unfolding sendPixels_show_def sp by (simp add: show_frame_buffered BlinkyTape_def)
qed

lemma frame_immediate:
  assumes "9 < n \<or> colors = []"
  shows "fst (sendPixels_show colors (BlinkyTape n False)) = Return ()"
    and "writes (calls (serial (snd (sendPixels_show colors (BlinkyTape n False))))) =
           map encode colors @ [[0, 0, 255]]"
proof -
  have sp: "sendPixels colors (BlinkyTape n False) =
      (Return (), (BlinkyTape n False)\<lparr>serial := \<lparr>calls =
         concat (map (\<lambda>c. [Write (encode c), Flush]) colors), incoming = []\<rparr>\<rparr>)"
  proof (cases "colors = []")
    case True
    then show ?thesis by (simp add: BlinkyTape_def)
  next
    case False
    with assms have "9 < ledCount (BlinkyTape n False)" by (simp add: BlinkyTape_def)
    from sendPixels_immediate [OF this, of colors] show ?thesis by (simp add: BlinkyTape_def)
  qed
  show "fst (sendPixels_show colors (BlinkyTape n False)) = Return ()"
    unfolding sendPixels_show_def sp by (simp add: show_frame_immediate BlinkyTape_def)
  show "writes (calls (serial (snd (sendPixels_show colors (BlinkyTape n False))))) =
           map encode colors @ [[0, 0, 255]]"
    unfolding sendPixels_show_def sp
    by (simp add: show_frame_immediate BlinkyTape_def writes_append writes_pixel_calls)
qed

lemma frame_rejected:
  assumes "\<not> 9 < n" "colors \<noteq> []"
  shows "sendPixels_show colors (BlinkyTape n b) = (Raise RuntimeError, BlinkyTape n b)"
proof -
  have "\<not> 9 < ledCount (BlinkyTape n b)" using assms by (simp add: BlinkyTape_def)
  from sendPixels_reject [OF this assms(2)] show ?thesis by (simp add: sendPixels_show_def)
qed

text \<open>
  Claim C4. A fresh driver is sent the same sequence of pixels, then \<^verbatim>\<open>show\<close>, once in
  buffered and once in immediate mode. When the buffered run raises no capacity error,
  neither does the immediate run, and the bytes on the wire are the same: the encoded
  pixels followed by (0, 0, 255). Only the batching differs: one write of the whole frame
  against one write for each pixel and one for the control triplet.
\<close>

theorem buffered_immediate_same_wire:
  assumes "fst (sendPixels_show colors (BlinkyTape n True)) = Return ()"
  shows "fst (sendPixels_show colors (BlinkyTape n False)) = Return ()
    \<and> wire (snd (sendPixels_show colors (BlinkyTape n False))) =
        wire (snd (sendPixels_show colors (BlinkyTape n True)))
    \<and> wire (snd (sendPixels_show colors (BlinkyTape n True))) =
        concat (map encode colors) @ [0, 0, 255]
    \<and> writes (calls (serial (snd (sendPixels_show colors (BlinkyTape n True))))) =
        [concat (map encode colors) @ [0, 0, 255]]
    \<and> writes (calls (serial (snd (sendPixels_show colors (BlinkyTape n False))))) =
        map encode colors @ [[0, 0, 255]]"
proof -
  have ok: "9 < n \<or> colors = []"
  proof (rule ccontr)
    assume "\<not> (9 < n \<or> colors = [])"
    then have "sendPixels_show colors (BlinkyTape n True) = (Raise RuntimeError, BlinkyTape n True)"
      by (intro frame_rejected) simp_all
    with assms show False by simp
  qed
  show ?thesis
    by (simp add: wire_def frame_buffered [OF ok] frame_immediate [OF ok])
qed

text \<open>
  The two modes on the pixels (300, -5, 7) and (0, 0, 255) with 60 LEDs.
\<close>

theorem buffered_immediate_same_wire_witness:
  "fst (sendPixels_show [(300, -5, 7), (0, 0, 255)] (BlinkyTape 60 True)) = Return ()
   \<and> wire (snd (sendPixels_show [(300, -5, 7), (0, 0, 255)] (BlinkyTape 60 False))) =
       [254, 0, 7, 0, 0, 254, 0, 0, 255]
   \<and> wire (snd (sendPixels_show [(300, -5, 7), (0, 0, 255)] (BlinkyTape 60 True))) =
       [254, 0, 7, 0, 0, 254, 0, 0, 255]"
proof -
  have h: "fst (sendPixels_show [(300, -5, 7), (0, 0, 255)] (BlinkyTape 60 True)) = Return ()"
    by (simp add: sendPixels_show_def sendPixel_eq BlinkyTape_def show_frame_def)
  from buffered_immediate_same_wire [OF h] h show ?thesis
    by (simp add: encode_def clamp_channel_def)
qed

lemma frame_round_trip_above_9:
  assumes "9 < n"
  shows "fst (sendPixels_show colors (BlinkyTape n b)) = Return ()
    \<and> length (wire (snd (sendPixels_show colors (BlinkyTape n b)))) = 3 * length colors + 3
    \<and> drop (3 * length colors) (wire (snd (sendPixels_show colors (BlinkyTape n b)))) = [0, 0, 255]"
proof -
  have len: "length (concat (map encode colors)) = 3 * length colors"
    by (induction colors) (simp_all add: length_encode)
  from assms have ok: "9 < n \<or> colors = []" by simp
  show ?thesis
    by (cases b) (simp_all add: wire_def frame_buffered [OF ok] frame_immediate [OF ok] len)
qed

text \<open>On a strip of at most 9 LEDs the driver's own \<^verbatim>\<open>displayColor\<close> raises.\<close>

lemma displayColor_small_strip:
  assumes "0 < n" "n \<le> 9"
  shows "displayColor r g b (BlinkyTape n m) = (Raise RuntimeError, BlinkyTape n m)"
proof -
  from assms have "[0..<nat n] \<noteq> []" by simp
  then have "map (\<lambda>i. (r, g, b)) [0..<nat n] \<noteq> []" by simp
  moreover from assms have "\<not> 9 < n" by simp
  ultimately have "sendPixels_show (map (\<lambda>i. (r, g, b)) [0..<nat n]) (BlinkyTape n m) =
      (Raise RuntimeError, BlinkyTape n m)"
    by (intro frame_rejected)
  then show ?thesis by (simp add: displayColor_def BlinkyTape_def)
qed

text \<open>
  Claim C1 at a failing input. \<^verbatim>\<open>sendPixel\<close> compares \<^verbatim>\<open>len(data)*3\<close>, which is always 9,
  with the LED count, not the number of pixels of the frame. With 60 LEDs the 61st pixel
  is accepted like the others and 183 bytes are buffered; with 5 LEDs the very first pixel
  raises.
\<close>

theorem capacity_check_ignores_count:
  "fst (sendPixels (replicate 61 (0, 0, 0)) (BlinkyTape 60 True)) = Return ()
   \<and> length (buf (snd (sendPixels (replicate 61 (0, 0, 0)) (BlinkyTape 60 True)))) = 183
   \<and> sendPixel 0 0 0 (BlinkyTape 5 True) = (Raise RuntimeError, BlinkyTape 5 True)"
proof -
  have "9 < ledCount (BlinkyTape 60 True)" "buffered (BlinkyTape 60 True)"
    by (simp_all add: BlinkyTape_def)
  from sendPixels_buffered [OF this, of "replicate 61 (0, 0, 0)"]
  have "sendPixels (replicate 61 (0, 0, 0)) (BlinkyTape 60 True) =
      (Return (), (BlinkyTape 60 True)\<lparr>buf := concat (replicate 61 (encode (0, 0, 0)))\<rparr>)"
    by (simp add: BlinkyTape_def)
  moreover have "length (concat (replicate 61 (encode (0, 0, 0)))) = 183"
    by (simp add: length_concat length_encode sum_list_replicate)
  moreover have "sendPixel 0 0 0 (BlinkyTape 5 True) = (Raise RuntimeError, BlinkyTape 5 True)"
    by (simp add: sendPixel_eq BlinkyTape_def)
  ultimately show ?thesis by simp
qed

text \<open>
  Claim C2 at a failing input. With 5 LEDs a frame of one pixel (N = 1, at most the LED
  count) raises at \<^verbatim>\<open>sendPixel\<close> in both modes, so \<^verbatim>\<open>show\<close> is not reached and no
  byte is written, where the claim has 6 bytes ending in (0, 0, 255).
\<close>

theorem small_strip_rejects_first_pixel:
  "sendPixels_show [(1, 2, 3)] (BlinkyTape 5 True) = (Raise RuntimeError, BlinkyTape 5 True)
   \<and> wire (snd (sendPixels_show [(1, 2, 3)] (BlinkyTape 5 True))) = []
   \<and> sendPixels_show [(1, 2, 3)] (BlinkyTape 5 False) = (Raise RuntimeError, BlinkyTape 5 False)"
  by (simp add: sendPixels_show_def sendPixel_eq BlinkyTape_def wire_def)

text \<open>
  Claim C3 at a failing input. The \<^verbatim>\<open>send_list\<close> in effect clamps 255 and above but
  not negative values: on the pixel (-1, 0, 0) its \<^verbatim>\<open>chr(-1)\<close> raises ValueError and
  nothing is written, where \<^verbatim>\<open>sendPixel\<close> clamps the same pixel to (0, 0, 0).
\<close>

theorem send_list_negative_raises:
  "send_list [(-1, 0, 0)] self = (Raise ValueError, self)
   \<and> fst (sendPixel (-1) 0 0 (BlinkyTape 60 True)) = Return ()
   \<and> buf (snd (sendPixel (-1) 0 0 (BlinkyTape 60 True))) = [0, 0, 0]"
  by (simp add: send_list_def chr_py_def sendPixel_eq BlinkyTape_def encode_def clamp_channel_def)

lemma sendCommand_calls_prefix:
  "take 4 (drop (length (calls (serial self))) (calls (serial (snd (sendCommand command self))))) =
     [Write (replicate 10 255), Write command, Flush, Read 2]"
  by (simp add: sendCommand_def serial_write_def serial_flush_def serial_read_def
      serial_flushInput_def getitem_def controlEscapeSequence_eq Let_def
      split: prod.splits option.splits sum.splits if_splits)

lemma sendCommand_response:
  assumes "incoming (serial self) = b0 # b1 # rest" "unat b1 + 1 \<le> length rest"
  shows "fst (sendCommand command self) = Return (b0 = 0x50, take (unat b1 + 1) rest)"
  using assms
  by (simp add: sendCommand_def serial_write_def serial_flush_def serial_read_def
      serial_flushInput_def getitem_def Let_def)

lemma sendCommand_reads:
  assumes "incoming (serial self) = b0 # b1 # rest" "unat b1 + 1 \<le> length rest"
  shows "calls (serial (snd (sendCommand command self))) = calls (serial self) @
      [Write (replicate 10 255), Write command, Flush, Read 2, Read (unat b1 + 1), FlushInput]"
  using assms
  by (simp add: sendCommand_def serial_write_def serial_flush_def serial_read_def
      serial_flushInput_def getitem_def controlEscapeSequence_eq Let_def)

lemma reloadAnimations_port:
  "serial (snd (reloadAnimations self)) = serial (snd (sendCommand [0x02] self))"
  by (simp add: reloadAnimations_def chr_py_def split: prod.splits outcome.splits)

text \<open>
  Claim C8. Whatever the payload and whatever the device answers, the first four calls
  that \<^verbatim>\<open>sendCommand\<close> makes on the port are: a write of ten bytes 255, a write of the
  payload, a flush, and only then the first read. These two writes are the only ones of the
  call. On a fresh driver the payload [0x02] puts ten bytes 255 and then 0x02 on the wire,
  and so does \<^verbatim>\<open>reloadAnimations\<close>, which sends this payload.
\<close>

theorem sendCommand_frames_payload:
  "take 4 (drop (length (calls (serial self))) (calls (serial (snd (sendCommand command self))))) =
     [Write (replicate 10 255), Write command, Flush, Read 2]
   \<and> writes (calls (serial (snd (sendCommand command self)))) =
       writes (calls (serial self)) @ [replicate 10 255, command]
   \<and> wire (snd (sendCommand [0x02] (BlinkyTape n b))) =
       [255, 255, 255, 255, 255, 255, 255, 255, 255, 255, 0x02]
   \<and> wire (snd (reloadAnimations (BlinkyTape n b))) = wire (snd (sendCommand [0x02] (BlinkyTape n b)))"
proof -
  have reload: "wire (snd (reloadAnimations (BlinkyTape n b))) =
      wire (snd (sendCommand [0x02] (BlinkyTape n b)))"
    by (simp add: wire_def reloadAnimations_port)
  have "wire (snd (sendCommand [0x02] (BlinkyTape n b))) = replicate 10 255 @ [0x02]"
    by (simp add: wire_def sendCommand_writes BlinkyTape_def)
  also have "\<dots> = [255, 255, 255, 255, 255, 255, 255, 255, 255, 255, 0x02]"
    by (simp add: numeral_eq_Suc)
  finally have "wire (snd (sendCommand [0x02] (BlinkyTape n b))) =
      [255, 255, 255, 255, 255, 255, 255, 255, 255, 255, 0x02]" .
  with reload show ?thesis
    by (simp add: sendCommand_calls_prefix sendCommand_writes)
qed

text \<open>
  Claim C5. When the device has delivered a two-byte header \<open>b0, b1\<close> followed by at least
  \<open>b1 + 1\<close> bytes, \<^verbatim>\<open>sendCommand\<close> returns the status \<open>b0 = 'P'\<close> (0x50) and the first
  \<open>b1 + 1\<close> bytes after the header as data, read by one call for 2 bytes and one for
  \<open>b1 + 1\<close> bytes. With a status other than 'P' \<^verbatim>\<open>getFreeSpace\<close> returns 0, and on
  the response 'P', 3, 1, 2, 3, 4 it returns 0x01020304.
\<close>

theorem response_decoding:
  assumes "incoming (serial self) = b0 # b1 # rest" "unat b1 + 1 \<le> length rest"
  shows "fst (sendCommand command self) = Return (b0 = 0x50, take (unat b1 + 1) rest)
    \<and> calls (serial (snd (sendCommand command self))) = calls (serial self) @
      [Write (replicate 10 255), Write command, Flush, Read 2, Read (unat b1 + 1), FlushInput]
    \<and> (b0 \<noteq> 0x50 \<longrightarrow> fst (getFreeSpace self) = Return 0)
    \<and> fst (getFreeSpace (self\<lparr>serial := (serial self)\<lparr>incoming := [0x50, 0x03, 0x01, 0x02, 0x03, 0x04]\<rparr>\<rparr>))
        = Return 0x01020304"
proof -
  have a: "fst (sendCommand command self) = Return (b0 = 0x50, take (unat b1 + 1) rest)"
    by (rule sendCommand_response [OF assms])
  have b: "fst (getFreeSpace self) = Return 0" if "b0 \<noteq> 0x50"
  proof -
    have "fst (sendCommand [0x10] self) = Return (False, take (unat b1 + 1) rest)"
      using sendCommand_response [OF assms, of "[0x10]"] that by simp
    then obtain self' where
      "sendCommand [0x10] self = (Return (False, take (unat b1 + 1) rest), self')"
      by (cases "sendCommand [0x10] self") simp
    then show ?thesis
      by (simp add: getFreeSpace_def chr_py_def)
  qed
  let ?s = "self\<lparr>serial := (serial self)\<lparr>incoming := [0x50, 0x03, 0x01, 0x02, 0x03, 0x04]\<rparr>\<rparr>"
  have "fst (sendCommand [0x10] ?s) = Return (0x50 = (0x50::byte), take (unat (3::byte) + 1) [0x01, 0x02, 0x03, 0x04])"
    by (rule sendCommand_response) simp_all
  then have "fst (sendCommand [0x10] ?s) = Return (True, [0x01, 0x02, 0x03, 0x04])"
    by simp
  then obtain self' where
    "sendCommand [0x10] ?s = (Return (True, [0x01, 0x02, 0x03, 0x04]), self')"
    by (cases "sendCommand [0x10] ?s") simp
  then have c: "fst (getFreeSpace ?s) = Return 0x01020304"
    by (simp add: getFreeSpace_def chr_py_def getitem_def)
  from a b c sendCommand_reads [OF assms, of command] show ?thesis by simp
qed

text \<open>
  A declined command ('F', 1, 7, 8, 9) and the response of the specification.
\<close>

theorem response_decoding_witness:
  "fst (sendCommand [0x10] ((BlinkyTape 60 True)\<lparr>serial := \<lparr>calls = [], incoming = [0x46, 0x01, 0x07, 0x08, 0x09]\<rparr>\<rparr>))
     = Return (False, [0x07, 0x08])
   \<and> fst (getFreeSpace ((BlinkyTape 60 True)\<lparr>serial := \<lparr>calls = [], incoming = [0x46, 0x01, 0x07, 0x08, 0x09]\<rparr>\<rparr>))
     = Return 0
   \<and> fst (getFreeSpace ((BlinkyTape 60 True)\<lparr>serial := \<lparr>calls = [], incoming = [0x50, 0x03, 0x01, 0x02, 0x03, 0x04]\<rparr>\<rparr>))
     = Return 16909060"
proof -
  let ?s = "(BlinkyTape 60 True)\<lparr>serial := \<lparr>calls = [], incoming = [0x46, 0x01, 0x07, 0x08, 0x09]\<rparr>\<rparr>"
  have h1: "incoming (serial ?s) = 0x46 # 0x01 # [0x07, 0x08, 0x09]" by simp
  have h2: "unat (0x01 :: byte) + 1 \<le> length [0x07, 0x08, 0x09 :: byte]" by simp
  from response_decoding [OF h1 h2, of "[0x10]"] show ?thesis
    by (simp add: BlinkyTape_def)
qed

text \<open>
  Claim C6. For channel values between -100 and 400, \<^verbatim>\<open>sendPixel\<close> on a strip that
  passes its capacity test appends to the buffer (buffered mode) or writes and flushes
  (immediate mode) exactly three bytes: the clamped values (255 and above to 254, negative
  to 0, others unchanged), each in [0, 254]. Building them raises nothing, and whether
  \<^verbatim>\<open>sendPixel\<close> returns does not depend on the values; where the capacity test fails
  nothing is buffered or written.
\<close>

theorem sendPixel_clamps:
  assumes "r \<in> {-100..400}" "g \<in> {-100..400}" "b \<in> {-100..400}"
  shows "map_sum id (map uint) (pixel_data r g b) =
           Inr [clamp_channel r, clamp_channel g, clamp_channel b]
    \<and> {clamp_channel r, clamp_channel g, clamp_channel b} \<subseteq> {0..254}
    \<and> fst (sendPixel r g b self) = fst (sendPixel 0 0 0 self)
    \<and> fst (sendPixel r g b self) \<noteq> Raise ValueError
    \<and> sendPixel r g b self =
         (if 9 < ledCount self then
            (if buffered self
             then (Return (), self\<lparr>buf := buf self @ encode (r, g, b)\<rparr>)
             else (Return (), self\<lparr>serial := (serial self)\<lparr>calls :=
                     calls (serial self) @ [Write (encode (r, g, b)), Flush]\<rparr>\<rparr>))
          else (Raise RuntimeError, self))
    \<and> map uint (encode (r, g, b)) = [clamp_channel r, clamp_channel g, clamp_channel b]
    \<and> (\<forall>c \<in> set (encode (r, g, b)). c \<le> 254)"
proof -
  have u: "uint (word_of_int (clamp_channel x) :: byte) = clamp_channel x" for x
    by (simp add: clamp_channel_def uint_word_of_int)
  have le: "(word_of_int (clamp_channel x) :: byte) \<le> 254" for x
    by (simp add: word_le_def u) (simp add: clamp_channel_def)
  have "map_sum id (map uint) (pixel_data r g b) =
           Inr [clamp_channel r, clamp_channel g, clamp_channel b]"
    by (simp add: pixel_data_encode encode_def u)
  moreover have "{clamp_channel r, clamp_channel g, clamp_channel b} \<subseteq> {0..254}"
    by (simp add: clamp_channel_def)
  moreover have "fst (sendPixel r g b self) = fst (sendPixel 0 0 0 self)"
    "fst (sendPixel r g b self) \<noteq> Raise ValueError"
    by (simp_all add: sendPixel_eq)
  moreover have "sendPixel r g b self =
         (if 9 < ledCount self then
            (if buffered self
             then (Return (), self\<lparr>buf := buf self @ encode (r, g, b)\<rparr>)
             else (Return (), self\<lparr>serial := (serial self)\<lparr>calls :=
                     calls (serial self) @ [Write (encode (r, g, b)), Flush]\<rparr>\<rparr>))
          else (Raise RuntimeError, self))"
    by (simp add: sendPixel_eq serial_write_def serial_flush_def)
  moreover have "map uint (encode (r, g, b)) = [clamp_channel r, clamp_channel g, clamp_channel b]"
    by (simp add: encode_def u)
  moreover have "\<forall>c \<in> set (encode (r, g, b)). c \<le> 254"
    by (simp add: encode_def le)
  ultimately show ?thesis by simp
qed

text \<open>
  The pixel (-100, 400, 77) in buffered mode and the pixel (255, 254, -1) in immediate mode.
\<close>

theorem sendPixel_clamps_witness:
  "map_sum id (map uint) (pixel_data (-100) 400 77) = Inr [0, 254, 77]
   \<and> map_sum id (map uint) (pixel_data 255 254 (-1)) = Inr [254, 254, 0]
   \<and> fst (sendPixel (-100) 400 77 (BlinkyTape 60 True)) = Return ()
   \<and> sendPixel (-100) 400 77 (BlinkyTape 60 True) =
       (Return (), \<lparr>ledCount = 60, buffered = True, buf = [0, 254, 77],
                    serial = \<lparr>calls = [], incoming = []\<rparr>\<rparr>)
   \<and> sendPixel 255 254 (-1) (BlinkyTape 60 False) =
       (Return (), \<lparr>ledCount = 60, buffered = False, buf = [],
                    serial = \<lparr>calls = [Write [254, 254, 0], Flush], incoming = []\<rparr>\<rparr>)"
proof -
  have h: "(-100::int) \<in> {-100..400}" "(400::int) \<in> {-100..400}" "(77::int) \<in> {-100..400}"
    "(255::int) \<in> {-100..400}" "(254::int) \<in> {-100..400}" "(-1::int) \<in> {-100..400}"
    by simp_all
  from sendPixel_clamps [OF h(1) h(2) h(3), of "BlinkyTape 60 True"]
    sendPixel_clamps [OF h(4) h(5) h(6), of "BlinkyTape 60 False"]
  show ?thesis
    by (simp add: clamp_channel_def encode_def BlinkyTape_def)
qed

lemma file_command_header:
  assumes "0 \<le> c" "c < 256"
  shows "chr_concat [c,
       drop_bit 24 sector AND 0xFF, drop_bit 16 sector AND 0xFF,
       drop_bit 8 sector AND 0xFF, sector AND 0xFF,
       drop_bit 24 offset AND 0xFF, drop_bit 16 offset AND 0xFF,
       drop_bit 8 offset AND 0xFF, offset AND 0xFF] =
     Inr (word_of_int c # be_u32 sector @ be_u32 offset)"
proof -
  have "chr_py c = Inr (word_of_int c)"
    using assms by (simp add: chr_py_def)
  then show ?thesis
    by (simp add: chr_py_masked be_u32_def drop_bit_eq_div)
qed

lemma chr_concat_append:
  "chr_concat (xs @ ys) =
     (case chr_concat xs of
        Inl e \<Rightarrow> Inl e
      | Inr cs \<Rightarrow> (case chr_concat ys of Inl e \<Rightarrow> Inl e | Inr ds \<Rightarrow> Inr (cs @ ds)))"
  by (induction xs) (simp_all split: sum.splits)

lemma snd_status_only:
  "snd (case x of
          (Return (status, returnData), self') \<Rightarrow> (Return (f status returnData), self')
        | (Raise e, self') \<Rightarrow> (Raise e, self')
        | (Blocked, self') \<Rightarrow> (Blocked, self')) = snd x"
  by (simp split: prod.splits outcome.splits)

lemma uint_byte_mod: "uint (word_of_int (y mod 256) :: byte) = y mod 256"
  by (simp add: uint_word_of_int)

lemma be_sum:
  fixes x :: int
  shows "x div 16777216 * 16777216 + x div 65536 mod 256 * 65536
           + x div 256 mod 256 * 256 + x mod 256 = x"
proof -
  have a: "x div 65536 = x div 256 div 256" "x div 16777216 = x div 256 div 256 div 256"
    by (simp_all add: zdiv_zmult2_eq [symmetric])
  define a0 where "a0 = x div 256"
  define a1 where "a1 = a0 div 256"
  define a2 where "a2 = a1 div 256"
  have "x = a0 * 256 + x mod 256" "a0 = a1 * 256 + a0 mod 256" "a1 = a2 * 256 + a1 mod 256"
    by (simp_all add: a0_def a1_def a2_def)
  then show ?thesis
    unfolding a a0_def [symmetric] a1_def [symmetric] a2_def [symmetric]
    by algebra
qed

text \<open>
  The four bytes of \<open>be_u32\<close> are the big-endian digits of the field: the decoding of
  \<^verbatim>\<open>getFreeSpace\<close> gives the value back.
\<close>

lemma be_u32_value:
  assumes "0 \<le> x" "x < 2 ^ 32"
  shows "add_shifted (be_u32 x) [(0, 24), (1, 16), (2, 8), (3, 0)] 0 = Inr x"
proof -
  have top: "x div 16777216 mod 256 = x div 16777216"
    using assms by simp
  have "add_shifted (be_u32 x) [(0, 24), (1, 16), (2, 8), (3, 0)] 0 =
      Inr (x div 16777216 mod 256 * 16777216 + x div 65536 mod 256 * 65536
           + x div 256 mod 256 * 256 + x mod 256)"
    by (simp add: be_u32_def getitem_def uint_byte_mod push_bit_eq_mult)
  also have "\<dots> = Inr x"
    unfolding top by (simp only: be_sum)
  finally show ?thesis .
qed

text \<open>
  Claim C7. With data of any length other than 256, \<^verbatim>\<open>writeFilePage\<close> returns False and
  leaves the driver and its port untouched. With 256 bytes it writes the preamble and then
  one command: 0x19, the sector and the offset as big-endian 32-bit fields, and the data.
\<close>

theorem writeFilePage_requires_full_page:
  "(length data \<noteq> 256 \<longrightarrow> writeFilePage sector offset data self = (Return False, self))
   \<and> (length data = 256 \<longrightarrow>
        writes (calls (serial (snd (writeFilePage sector offset data self)))) =
          writes (calls (serial self)) @
            [replicate 10 255, [0x19] @ be_u32 sector @ be_u32 offset @ data])"
proof -
  have hdr: "chr_concat [0x19,
       drop_bit 24 sector AND 0xFF, drop_bit 16 sector AND 0xFF,
       drop_bit 8 sector AND 0xFF, sector AND 0xFF,
       drop_bit 24 offset AND 0xFF, drop_bit 16 offset AND 0xFF,
       drop_bit 8 offset AND 0xFF, offset AND 0xFF] =
     Inr (0x19 # be_u32 sector @ be_u32 offset)"
    using file_command_header [of "0x19" sector offset] by simp
  show ?thesis
    using hdr by (simp add: writeFilePage_def snd_status_only sendCommand_writes)
qed

text \<open>
  A page of 255 bytes and a page of 256 bytes, for sector 1 and offset 2.
\<close>

theorem writeFilePage_requires_full_page_witness:
  "writeFilePage 1 2 (replicate 255 0) (BlinkyTape 60 True) = (Return False, BlinkyTape 60 True)
   \<and> wire (snd (writeFilePage 1 2 (replicate 255 0) (BlinkyTape 60 True))) = []
   \<and> writes (calls (serial (snd (writeFilePage 1 2 (replicate 256 0) (BlinkyTape 60 True))))) =
       [replicate 10 255, [0x19, 0, 0, 0, 1, 0, 0, 0, 2] @ replicate 256 0]"
proof -
  have h1: "length (replicate 255 (0::byte)) \<noteq> 256" and h2: "length (replicate 256 (0::byte)) = 256"
    by simp_all
  from writeFilePage_requires_full_page [of "replicate 255 0" 1 2 "BlinkyTape 60 True"] h1
  have a: "writeFilePage 1 2 (replicate 255 0) (BlinkyTape 60 True) = (Return False, BlinkyTape 60 True)"
    by simp
  from writeFilePage_requires_full_page [of "replicate 256 0" 1 2 "BlinkyTape 60 True"] h2
  have b: "writes (calls (serial (snd (writeFilePage 1 2 (replicate 256 0) (BlinkyTape 60 True))))) =
          writes (calls (serial (BlinkyTape 60 True))) @
            [replicate 10 255, [0x19] @ be_u32 1 @ be_u32 2 @ replicate 256 0]"
    by simp
  have c: "wire (BlinkyTape 60 True) = []" "writes (calls (serial (BlinkyTape 60 True))) = []"
    by (simp_all add: wire_def BlinkyTape_def)
  from a b c show ?thesis by (simp add: be_u32_def)
qed

lemma readFileData_command:
  assumes "len \<le> 256"
  shows "writes (calls (serial (snd (readFileData sector offset len self)))) =
      writes (calls (serial self)) @
        [replicate 10 255,
         [0x1A] @ be_u32 sector @ be_u32 offset @ [word_of_int ((len - 1) mod 256)]]"
proof -
  have hdr: "chr_concat ([0x1A,
       drop_bit 24 sector AND 0xFF, drop_bit 16 sector AND 0xFF,
       drop_bit 8 sector AND 0xFF, sector AND 0xFF,
       drop_bit 24 offset AND 0xFF, drop_bit 16 offset AND 0xFF,
       drop_bit 8 offset AND 0xFF, offset AND 0xFF] @ [(len - 1) AND 0xFF]) =
     Inr ((0x1A # be_u32 sector @ be_u32 offset) @ [word_of_int ((len - 1) mod 256)])"
    unfolding chr_concat_append
    using file_command_header [of "0x1A" sector offset] by (simp add: chr_py_masked)
  show ?thesis
    using assms hdr by (simp add: readFileData_def snd_status_only sendCommand_writes)
qed

text \<open>
  Claim C9. For a length from 0 to 256 the command that \<^verbatim>\<open>readFileData\<close> writes after
  the preamble is 0x1A, the sector and the offset as big-endian 32-bit fields, and one
  byte: the length minus one, modulo 256. For length 0 this byte is 255.
\<close>

theorem readFileData_length_byte:
  assumes "0 \<le> len" "len \<le> 256"
  shows "writes (calls (serial (snd (readFileData sector offset len self)))) =
      writes (calls (serial self)) @
        [replicate 10 255,
         [0x1A] @ be_u32 sector @ be_u32 offset @ [word_of_int ((len - 1) mod 256)]]
    \<and> writes (calls (serial (snd (readFileData sector offset 0 self)))) =
      writes (calls (serial self)) @
        [replicate 10 255, [0x1A] @ be_u32 sector @ be_u32 offset @ [255]]"
  using readFileData_command [OF assms(2), of sector offset self]
    readFileData_command [of 0 sector offset self]
  by simp

text \<open>
  Lengths 256 and 0 send the same final byte, 255.
\<close>

theorem readFileData_length_byte_witness:
  "writes (calls (serial (snd (readFileData 0x01020304 5 256 (BlinkyTape 60 True))))) =
      [replicate 10 255, [0x1A, 1, 2, 3, 4, 0, 0, 0, 5, 255]]
   \<and> writes (calls (serial (snd (readFileData 0x01020304 5 0 (BlinkyTape 60 True))))) =
      [replicate 10 255, [0x1A, 1, 2, 3, 4, 0, 0, 0, 5, 255]]"
proof -
  have h: "(0::int) \<le> 256" "(256::int) \<le> 256" by simp_all
  from readFileData_length_byte [OF h, of "0x01020304" 5 "BlinkyTape 60 True"]
  show ?thesis by (simp add: be_u32_def BlinkyTape_def)
qed

text \<open>
  Claim C10. For a length above 256, \<^verbatim>\<open>readFileData\<close> returns the bare boolean False
  with no call on the port, and this value is no (status, data) pair; for a length of at
  most 256 it never returns a bare boolean.
\<close>

theorem readFileData_fast_fail_shape:
  assumes "256 < len"
  shows "readFileData sector offset len self = (Return (PyBool False), self)
    \<and> (\<forall>status data. fst (readFileData sector offset len self) \<noteq> Return (PyPair status data))
    \<and> (len' \<le> 256 \<longrightarrow>
         (case fst (readFileData sector' offset' len' self') of
            Return (PyBool _) \<Rightarrow> False | _ \<Rightarrow> True))"
proof -
  have a: "readFileData sector offset len self = (Return (PyBool False), self)"
    using assms by (simp add: readFileData_def)
  have c: "case fst (readFileData sector' offset' len' self') of
            Return (PyBool _) \<Rightarrow> False | _ \<Rightarrow> True" if "len' \<le> 256"
    using that
    by (simp add: readFileData_def split: sum.splits prod.splits outcome.splits)
  from a c show ?thesis by simp
qed

text \<open>
  Length 257 against a completed exchange of length 1.
\<close>

theorem readFileData_fast_fail_shape_witness:
  "readFileData 0 0 257 (BlinkyTape 60 True) = (Return (PyBool False), BlinkyTape 60 True)
   \<and> calls (serial (snd (readFileData 0 0 257 (BlinkyTape 60 True)))) = []
   \<and> fst (readFileData 0 0 1 ((BlinkyTape 60 True)\<lparr>serial := \<lparr>calls = [], incoming = [0x50, 0, 7]\<rparr>\<rparr>))
       = Return (PyPair True [7])"
proof -
  have h: "(256::int) < 257" by simp
  have r: "fst (readFileData 0 0 1 ((BlinkyTape 60 True)\<lparr>serial := \<lparr>calls = [], incoming = [0x50, 0, 7]\<rparr>\<rparr>))
       = Return (PyPair True [7])"
    by (simp add: readFileData_def chr_py_def sendCommand_def serial_write_def serial_flush_def
        serial_read_def serial_flushInput_def getitem_def Let_def BlinkyTape_def)
  from readFileData_fast_fail_shape [OF h, of 0 0 "BlinkyTape 60 True" 1 0 0
      "(BlinkyTape 60 True)\<lparr>serial := \<lparr>calls = [], incoming = [0x50, 0, 7]\<rparr>\<rparr>"] r
  show ?thesis by (simp add: BlinkyTape_def)
qed

lemma byte_of_int_le_254: "0 \<le> i \<Longrightarrow> i \<le> 254 \<Longrightarrow> (word_of_int i :: byte) \<le> 254"
  by (simp add: word_le_def uint_word_of_int take_bit_int_eq_self)

text \<open>Whatever \<^verbatim>\<open>send_list\<close> does write as pixel data is at most 254.\<close>

lemma send_list_data_bytes:
  "send_list_data colors acc = Inr data \<Longrightarrow> \<forall>c\<in>set acc. c \<le> 254 \<Longrightarrow> \<forall>c\<in>set data. c \<le> 254"
proof (induction colors acc rule: send_list_data.induct)
  case (1 acc)
  then show ?case by simp
next
  case (2 r g b colors acc)
  let ?r = "if r \<ge> 255 then 254 else r" and ?g = "if g \<ge> 255 then 254 else g"
    and ?b = "if b \<ge> 255 then 254 else b"
  from "2.prems"(1) obtain d where d: "chr_concat [?r, ?g, ?b] = Inr d"
    and rec: "send_list_data colors (acc @ d) = Inr data"
    by (simp add: Let_def split: sum.splits)
  from d have "\<forall>c\<in>set d. c \<le> 254"
    by (auto simp: chr_py_def byte_of_int_le_254 split: if_splits)
  with "2.prems"(2) have "\<forall>c\<in>set (acc @ d). c \<le> 254" by auto
  with "2.IH" [OF refl refl refl d rec] show ?case .
qed

end
